theory Spec2Isabelle
  imports Main
begin

section \<open>Values exchanged with the outside world\<close>

text \<open>
  The scheduler (\<^verbatim>\<open>railway/scheduler.py\<close>) reads the wall clock with
  \<^verbatim>\<open>datetime.now()\<close> and stores the reading as ISO text
  (\<^verbatim>\<open>isoformat\<close>, read back with \<^verbatim>\<open>fromisoformat\<close>).
  A reading is modelled by the instant it denotes, in microseconds, the resolution
  of a Python \<^verbatim>\<open>datetime\<close>.
\<close>

type_synonym datetime = int

definition timedelta_minutes :: "int \<Rightarrow> int" where
  "timedelta_minutes n = n * 60000000"

text \<open>
  A JSON document as \<^verbatim>\<open>response.json()\<close> returns it. Objects are association
  lists read with \<open>map_of\<close>. Numbers are integers; fractional numbers are not
  modelled.
\<close>

datatype json =
    JNull
  | JBool bool
  | JNum int
  | JStr string
  | JArr "json list"
  | JObj "(string \<times> json) list"

text \<open>
  The exceptions below are all subclasses of Python's \<^verbatim>\<open>Exception\<close>, so a
  handler \<^verbatim>\<open>except Exception\<close> catches every one of them.
  \<^verbatim>\<open>SystemExit\<close> is not, and is kept apart.
\<close>

datatype exn =
    Timeout
  | ConnectionError
  | HTTPError nat
  | JSONDecodeError
  | KeyError string
  | TypeError
  | AttributeError
  | TimeoutExpired
  | OSError

datatype abort = SystemExit int | Uncaught exn

definition and_then :: "exn + 'a \<Rightarrow> ('a \<Rightarrow> exn + 'b) \<Rightarrow> exn + 'b" where
  "and_then m f = (case m of Inl e \<Rightarrow> Inl e | Inr x \<Rightarrow> f x)"

subsection \<open>The Python operations the code applies to a parsed body\<close>

fun str_contains :: "string \<Rightarrow> string \<Rightarrow> bool" where
  "str_contains needle [] = (needle = [])"
| "str_contains needle (c # cs) =
     (take (length needle) (c # cs) = needle \<or> str_contains needle cs)"

text \<open>\<^verbatim>\<open>k in data\<close>: key test on a dict, membership on a list, substring on a
  string, \<^verbatim>\<open>TypeError\<close> on anything else.\<close>

fun py_in :: "string \<Rightarrow> json \<Rightarrow> exn + bool" where
  "py_in k (JObj kvs) = Inr (map_of kvs k \<noteq> None)"
| "py_in k (JArr xs) = Inr (JStr k \<in> set xs)"
| "py_in k (JStr s) = Inr (str_contains k s)"
| "py_in k JNull = Inl TypeError"
| "py_in k (JBool b) = Inl TypeError"
| "py_in k (JNum n) = Inl TypeError"

text \<open>\<^verbatim>\<open>data[k]\<close> with a string key.\<close>

fun py_getitem :: "json \<Rightarrow> string \<Rightarrow> exn + json" where
  "py_getitem (JObj kvs) k =
     (case map_of kvs k of None \<Rightarrow> Inl (KeyError k) | Some v \<Rightarrow> Inr v)"
| "py_getitem JNull k = Inl TypeError"
| "py_getitem (JBool b) k = Inl TypeError"
| "py_getitem (JNum n) k = Inl TypeError"
| "py_getitem (JStr s) k = Inl TypeError"
| "py_getitem (JArr xs) k = Inl TypeError"

text \<open>\<^verbatim>\<open>data.get(k, d)\<close>: only a dict has the method.\<close>

fun py_get :: "json \<Rightarrow> string \<Rightarrow> json \<Rightarrow> exn + json" where
  "py_get (JObj kvs) k d = Inr (case map_of kvs k of None \<Rightarrow> d | Some v \<Rightarrow> v)"
| "py_get JNull k d = Inl AttributeError"
| "py_get (JBool b) k d = Inl AttributeError"
| "py_get (JNum n) k d = Inl AttributeError"
| "py_get (JStr s) k d = Inl AttributeError"
| "py_get (JArr xs) k d = Inl AttributeError"

text \<open>\<^verbatim>\<open>v > 0\<close>: defined on numbers (a Python bool is a number).\<close>

fun py_gt_zero :: "json \<Rightarrow> exn + bool" where
  "py_gt_zero (JNum n) = Inr (0 < n)"
| "py_gt_zero (JBool b) = Inr b"
| "py_gt_zero JNull = Inl TypeError"
| "py_gt_zero (JStr s) = Inl TypeError"
| "py_gt_zero (JArr xs) = Inl TypeError"
| "py_gt_zero (JObj kvs) = Inl TypeError"

text \<open>Decimal text of a non-negative integer, as an f-string prints it.\<close>

fun str_nat :: "nat \<Rightarrow> string" where
  "str_nat n =
     (if n < 10 then [''0123456789'' ! n]
      else str_nat (n div 10) @ [''0123456789'' ! (n mod 10)])"

declare str_nat.simps [simp del]

subsection \<open>Remote calls\<close>

text \<open>
  What one call of \<^verbatim>\<open>requests.post\<close> or \<^verbatim>\<open>requests.get\<close> does: it
  raises (time-out, connection failure), or it returns a response with a status code
  and a body; the body is \<open>None\<close> when \<^verbatim>\<open>response.json()\<close> cannot parse it.
\<close>

datatype reply = Fails exn | Responds nat "json option"

definition raise_for_status :: "nat \<Rightarrow> exn + unit" where
  "raise_for_status code =
     (if 400 \<le> code \<and> code < 600 then Inl (HTTPError code) else Inr ())"

definition response_ok :: "nat \<Rightarrow> bool" where
  "response_ok code = (case raise_for_status code of Inl e \<Rightarrow> False | Inr u \<Rightarrow> True)"

definition response_json :: "json option \<Rightarrow> exn + json" where
  "response_json body = (case body of None \<Rightarrow> Inl JSONDecodeError | Some data \<Rightarrow> Inr data)"

section \<open>The data model\<close>

text \<open>
  An agent record is the dict built by \<^verbatim>\<open>register_bot\<close>. The identifier, the
  credential and the name are whatever JSON values the remote reply carried.
  \<^verbatim>\<open>last_battle\<close> is \<open>None\<close> for Python's \<^verbatim>\<open>None\<close> (and for a missing
  key, which \<^verbatim>\<open>bot.get('last_battle')\<close> reads the same way). \<^verbatim>\<open>battles\<close>
  is \<open>None\<close> when the key is missing, which \<^verbatim>\<open>bot.get('battles', 0)\<close> reads
  as 0.
\<close>

record bot =
  index :: nat
  agent_id :: json
  api_key :: json
  name :: json
  registered :: datetime
  last_battle :: "datetime option"
  battles :: "int option"

record manifest =
  bots :: "bot list"
  created :: datetime

record llm_config =
  provider :: string
  llm_api_key :: string
  model :: string

text \<open>\<^verbatim>\<open>bot.get('battles', 0)\<close>\<close>

definition get_battles :: "bot \<Rightarrow> int" where
  "get_battles b = (case battles b of None \<Rightarrow> 0 | Some n \<Rightarrow> n)"

section \<open>What the process does to the outside world\<close>

text \<open>
  The trace of a run lists, in order, the calls \<^verbatim>\<open>main\<close> makes and the warnings
  and errors that are logged: \<open>Register i r\<close> is the call \<^verbatim>\<open>register_bot(i)\<close>
  and its result, \<open>Rate_check p r\<close> the call of \<^verbatim>\<open>check_rate_limit\<close> on the
  agent at position \<open>p\<close> of the manifest, \<open>Battle p r\<close> the call of
  \<^verbatim>\<open>run_bot_battle\<close> on that agent, \<open>Save m\<close> the call
  \<^verbatim>\<open>save_manifest(m)\<close>, \<open>Sleep s\<close> the call \<^verbatim>\<open>time.sleep(s)\<close>.
  Messages logged at level info are left out.
\<close>

datatype level = Warning | Error

datatype message =
    Failed_to_register nat exn
  | Rate_limit_check_failed json exn
  | Battle_timeout json
  | Battle_error json exn
  | Registration_failed_will_retry_later

datatype event =
    Log level message
  | Register nat "bot option"
  | Rate_check nat bool
  | Battle nat bool
  | Save manifest
  | Sleep nat

fun register_of :: "event \<Rightarrow> (nat \<times> bot option) list" where
  "register_of (Register i r) = [(i, r)]"
| "register_of (Log l msg) = []"
| "register_of (Rate_check p r) = []"
| "register_of (Battle p r) = []"
| "register_of (Save m) = []"
| "register_of (Sleep s) = []"

fun rate_check_of :: "event \<Rightarrow> (nat \<times> bool) list" where
  "rate_check_of (Rate_check p r) = [(p, r)]"
| "rate_check_of (Log l msg) = []"
| "rate_check_of (Register i r) = []"
| "rate_check_of (Battle p r) = []"
| "rate_check_of (Save m) = []"
| "rate_check_of (Sleep s) = []"

fun battle_of :: "event \<Rightarrow> (nat \<times> bool) list" where
  "battle_of (Battle p r) = [(p, r)]"
| "battle_of (Log l msg) = []"
| "battle_of (Register i r) = []"
| "battle_of (Rate_check p r) = []"
| "battle_of (Save m) = []"
| "battle_of (Sleep s) = []"

definition register_calls :: "event list \<Rightarrow> (nat \<times> bot option) list" where
  "register_calls tr = concat (map register_of tr)"

definition rate_checks :: "event list \<Rightarrow> (nat \<times> bool) list" where
  "rate_checks tr = concat (map rate_check_of tr)"

definition battle_calls :: "event list \<Rightarrow> (nat \<times> bool) list" where
  "battle_calls tr = concat (map battle_of tr)"

section \<open>scheduler.py\<close>

subsection \<open>get_llm_config\<close>

text \<open>
  \<^verbatim>\<open>os.environ.get(k)\<close> is truthy when the variable is set to a non-empty
  string. With neither key the function logs an error and calls
  \<^verbatim>\<open>sys.exit(1)\<close>.
\<close>

definition get_llm_config :: "(string \<rightharpoonup> string) \<Rightarrow> abort + llm_config" where
  "get_llm_config environ =
     (case environ ''DEEPSEEK_API_KEY'' of
        Some (c # cs) \<Rightarrow>
          Inr \<lparr>provider = ''deepseek'', llm_api_key = c # cs, model = ''deepseek-chat''\<rparr>
      | _ \<Rightarrow>
          (case environ ''OPENROUTER_API_KEY'' of
             Some (c # cs) \<Rightarrow>
               Inr \<lparr>provider = ''openrouter'', llm_api_key = c # cs,
                    model = ''meta-llama/llama-3.3-70b-instruct:free''\<rparr>
           | _ \<Rightarrow> Inl (SystemExit 1)))"

subsection \<open>load_manifest and save_manifest\<close>

text \<open>
  The manifest file is \<open>None\<close> when it does not exist and \<open>Some text\<close> when it
  does. \<^verbatim>\<open>json.load\<close> and \<^verbatim>\<open>json.dump\<close> belong to the Python library and
  are parameters: \<open>json_load text\<close> is the manifest the text parses to, or the
  exception \<^verbatim>\<open>json.load\<close> raises on it. \<open>now\<close> is the clock reading taken
  when no file exists. Writing the file is taken to succeed.
\<close>

definition load_manifest ::
  "(string \<Rightarrow> exn + manifest) \<Rightarrow> datetime \<Rightarrow> string option \<Rightarrow> exn + manifest" where
  "load_manifest json_load now file =
     (case file of
        Some text \<Rightarrow> json_load text
      | None \<Rightarrow> Inr \<lparr>bots = [], created = now\<rparr>)"


subsection \<open>register_bot\<close>

text \<open>The body of the \<^verbatim>\<open>try\<close> block: \<open>Inr None\<close> is falling out of it without
  returning.\<close>

definition register_bot_try :: "reply \<Rightarrow> nat \<Rightarrow> datetime \<Rightarrow> exn + bot option" where
  "register_bot_try r bot_index now =
     (case r of
        Fails e \<Rightarrow> Inl e
      | Responds code body \<Rightarrow>
          and_then (raise_for_status code) (\<lambda>u.
          and_then (response_json body) (\<lambda>data.
          and_then (py_in ''data'' data) (\<lambda>has_data.
            if has_data then
              and_then (py_getitem data ''data'') (\<lambda>d.
              and_then (py_getitem d ''agent_id'') (\<lambda>aid.
              and_then (py_getitem d ''api_key'') (\<lambda>akey.
              and_then (py_get d ''name'' (JStr (''Bot-'' @ str_nat bot_index))) (\<lambda>nm.
                Inr (Some \<lparr>index = bot_index, agent_id = aid, api_key = akey, name = nm,
                           registered = now, last_battle = None, battles = Some 0\<rparr>)))))
            else Inr None))))"

definition register_bot :: "reply \<Rightarrow> nat \<Rightarrow> datetime \<Rightarrow> event list \<times> bot option" where
  "register_bot r bot_index now =
     (case register_bot_try r bot_index now of
        Inl e \<Rightarrow> ([Log Error (Failed_to_register bot_index e)], None)
      | Inr res \<Rightarrow> ([], res))"

subsection \<open>check_rate_limit\<close>

definition check_rate_limit_try :: "reply \<Rightarrow> exn + bool option" where
  "check_rate_limit_try r =
     (case r of
        Fails e \<Rightarrow> Inl e
      | Responds code body \<Rightarrow>
          if response_ok code then
            and_then (response_json body) (\<lambda>data.
            and_then (py_in ''data'' data) (\<lambda>has_data.
              if has_data then
                and_then (py_getitem data ''data'') (\<lambda>d.
                and_then (py_get d ''fights_remaining'' (JNum 0)) (\<lambda>v.
                and_then (py_gt_zero v) (\<lambda>g. Inr (Some g))))
              else Inr None))
          else Inr None)"

definition check_rate_limit :: "reply \<Rightarrow> bot \<Rightarrow> event list \<times> bool" where
  "check_rate_limit r b =
     (case check_rate_limit_try r of
        Inl e \<Rightarrow> ([Log Warning (Rate_limit_check_failed (name b) e)], False)
      | Inr (Some g) \<Rightarrow> ([], g)
      | Inr None \<Rightarrow> ([], False))"

subsection \<open>run_bot_battle\<close>

text \<open>
  What \<^verbatim>\<open>subprocess.run\<close> does: the child ends with a return code, or the call
  raises (\<^verbatim>\<open>TimeoutExpired\<close> after 300 seconds, or another exception such as a
  missing executable).
\<close>

datatype process = Completed int | Raises exn

text \<open>
  Everything outside the process that one visit of an agent reads: the reply to the
  status query, the clock read by the cool-down test, what the child process does and
  the clock read after a successful battle.
\<close>

record visit_world =
  status_reply :: reply
  check_clock :: datetime
  battle_process :: process
  battle_clock :: datetime

definition run_bot_battle :: "visit_world \<Rightarrow> bot \<Rightarrow> llm_config \<Rightarrow> event list \<times> bot \<times> bool" where
  "run_bot_battle w b cfg =
     (case battle_process w of
        Completed returncode \<Rightarrow>
          if returncode = 0 then
            ([], b\<lparr>last_battle := Some (battle_clock w),
                   battles := Some (get_battles b + 1)\<rparr>, True)
          else ([], b, False)
      | Raises e \<Rightarrow>
          if e = TimeoutExpired then ([Log Warning (Battle_timeout (name b))], b, False)
          else ([Log Error (Battle_error (name b) e)], b, False))"

subsection \<open>main\<close>

text \<open>
  \<^verbatim>\<open>BOT_COUNT\<close> is the integer the module has read from the environment before
  \<^verbatim>\<open>main\<close> runs. The model follows the remote calls, the child processes, the
  clock and the manifest; writes to the local disk (the manifest and the per-agent
  configuration file) are taken to succeed.
\<close>

text \<open>The registration loop, lines 202 to 211. \<open>rw i\<close> is what the outside world
  does when slot \<open>i\<close> is registered: the reply to the request and the clock.\<close>

record register_world =
  register_reply :: reply
  register_clock :: datetime

function register_loop ::
  "int \<Rightarrow> (nat \<Rightarrow> register_world) \<Rightarrow> manifest \<Rightarrow> event list \<times> manifest" where
  "register_loop BOT_COUNT rw m =
     (if int (length (bots m)) < BOT_COUNT then
        (let i = length (bots m) in
         case register_bot (register_reply (rw i)) i (register_clock (rw i)) of
           (logged, Some b) \<Rightarrow>
             (let m' = m\<lparr>bots := bots m @ [b]\<rparr> in
              case register_loop BOT_COUNT rw m' of
                (tr, m'') \<Rightarrow> (logged @ [Register i (Some b), Save m', Sleep 1] @ tr, m''))
         | (logged, None) \<Rightarrow>
             (logged @ [Register i None, Log Warning Registration_failed_will_retry_later], m))
      else ([], m))"
  by pat_completeness auto
termination
  by (relation "measure (\<lambda>(BOT_COUNT, rw, m). nat (BOT_COUNT - int (length (bots m))))") auto

declare register_loop.simps [simp del]

text \<open>The cool-down test, lines 229 to 233.\<close>

definition battled_recently :: "datetime \<Rightarrow> bot \<Rightarrow> bool" where
  "battled_recently now b =
     (case last_battle b of
        None \<Rightarrow> False
      | Some last' \<Rightarrow> now - last' < timedelta_minutes 55)"

text \<open>The body of the \<^verbatim>\<open>for\<close> loop, lines 223 to 241, for the agent \<open>b\<close> at
  position \<open>p\<close>. \<open>whole b'\<close> is the manifest with the agent replaced by \<open>b'\<close>. The
  result says whether \<^verbatim>\<open>battles_run\<close> is incremented.\<close>

definition visit ::
  "llm_config \<Rightarrow> visit_world \<Rightarrow> nat \<Rightarrow> (bot \<Rightarrow> manifest) \<Rightarrow> bot \<Rightarrow> event list \<times> bot \<times> bool" where
  "visit cfg w p whole b =
     (case check_rate_limit (status_reply w) b of
        (logged, allowed) \<Rightarrow>
          if \<not> allowed then (logged @ [Rate_check p False], b, False)
          else if battled_recently (check_clock w) b then (logged @ [Rate_check p True], b, False)
          else
            (case run_bot_battle w b cfg of
               (logged', b', won) \<Rightarrow>
                 (logged @ [Rate_check p True] @ logged' @ [Battle p won]
                    @ (if won then [Save (whole b')] else []) @ [Sleep 5],
                  b', won)))"

text \<open>The \<^verbatim>\<open>for\<close> loop over \<^verbatim>\<open>manifest['bots']\<close>: \<open>visited\<close> are the agents
  already visited in this cycle, \<open>n\<close> is \<^verbatim>\<open>battles_run\<close>.\<close>

fun bot_loop ::
  "llm_config \<Rightarrow> (nat \<Rightarrow> visit_world) \<Rightarrow> manifest \<Rightarrow> bot list \<Rightarrow> bot list \<Rightarrow> nat
     \<Rightarrow> event list \<times> bot list \<times> nat" where
  "bot_loop cfg ws m visited [] n = ([], visited, n)"
| "bot_loop cfg ws m visited (b # rest) n =
     (case visit cfg (ws (length visited)) (length visited)
             (\<lambda>b'. m\<lparr>bots := visited @ b' # rest\<rparr>) b of
        (tr, b', won) \<Rightarrow>
          (case bot_loop cfg ws m (visited @ [b']) rest (if won then n + 1 else n) of
             (tr', bs, k) \<Rightarrow> (tr @ tr', bs, k)))"

text \<open>One pass of the \<^verbatim>\<open>while True\<close> loop, lines 217 to 247.\<close>

definition cycle :: "llm_config \<Rightarrow> (nat \<Rightarrow> visit_world) \<Rightarrow> manifest \<Rightarrow> event list \<times> manifest" where
  "cycle cfg ws m =
     (case bot_loop cfg ws m [] (bots m) 0 of
        (tr, bs, battles_run) \<Rightarrow> (tr @ [Sleep 600], m\<lparr>bots := bs\<rparr>))"

text \<open>The loop never ends by itself; \<open>cycles cfg cw n m\<close> is what it has done after
  its first \<open>n\<close> passes, where \<open>cw k p\<close> is the outside world at position \<open>p\<close> of
  pass \<open>k\<close>.\<close>

fun cycles ::
  "llm_config \<Rightarrow> (nat \<Rightarrow> nat \<Rightarrow> visit_world) \<Rightarrow> nat \<Rightarrow> manifest \<Rightarrow> event list \<times> manifest" where
  "cycles cfg cw 0 m = ([], m)"
| "cycles cfg cw (Suc n) m =
     (case cycles cfg cw n m of
        (tr, m') \<Rightarrow>
          (case cycle cfg (cw n) m' of
             (tr', m'') \<Rightarrow> (tr @ tr', m'')))"

text \<open>\<^verbatim>\<open>main\<close>, observed through its first \<open>n\<close> cycles: \<open>Inl\<close> when the process
  ends before the cycle loop.\<close>

definition main ::
  "(string \<rightharpoonup> string) \<Rightarrow> (string \<Rightarrow> exn + manifest) \<Rightarrow> datetime \<Rightarrow> string option \<Rightarrow> int
     \<Rightarrow> (nat \<Rightarrow> register_world) \<Rightarrow> (nat \<Rightarrow> nat \<Rightarrow> visit_world) \<Rightarrow> nat
     \<Rightarrow> abort + event list \<times> manifest" where
  "main environ json_load now file BOT_COUNT rw cw n =
     (case get_llm_config environ of
        Inl a \<Rightarrow> Inl a
      | Inr llm_config \<Rightarrow>
          (case load_manifest json_load now file of
             Inl e \<Rightarrow> Inl (Uncaught e)
           | Inr m \<Rightarrow>
               (case register_loop BOT_COUNT rw m of
                  (tr, m') \<Rightarrow>
                    (case cycles llm_config cw n m' of
                       (tr', m'') \<Rightarrow> Inr (tr @ tr', m'')))))"

section \<open>fleet-manager.py\<close>

text \<open>
  The set-up script has its own registration function. It returns the pair of
  identifier and credential; its handler prints the failure and raises it again.
  The name and type sent with the request do not change what the code does with the
  reply and are left out.
\<close>

definition register_bot_on_clawcombat_try :: "reply \<Rightarrow> exn + json \<times> json" where
  "register_bot_on_clawcombat_try r =
     (case r of
        Fails e \<Rightarrow> Inl e
      | Responds code body \<Rightarrow>
          and_then (raise_for_status code) (\<lambda>u.
          and_then (response_json body) (\<lambda>data.
          and_then (py_getitem data ''data'') (\<lambda>d.
          and_then (py_getitem d ''agent_id'') (\<lambda>aid.
          and_then (py_getitem data ''data'') (\<lambda>d'.
          and_then (py_getitem d' ''api_key'') (\<lambda>akey.
            Inr (aid, akey))))))))"

definition register_bot_on_clawcombat :: "reply \<Rightarrow> nat \<Rightarrow> message list \<times> (exn + json \<times> json)" where
  "register_bot_on_clawcombat r bot_id =
     (case register_bot_on_clawcombat_try r of
        Inl e \<Rightarrow> ([Failed_to_register bot_id e], Inl e)
      | Inr res \<Rightarrow> ([], Inr res))"

section \<open>Notions used to state the properties\<close>

text \<open>An agent passes both tests of the loop body: the remote rate limit and the
  local cool-down.\<close>

definition eligible :: "visit_world \<Rightarrow> bot \<Rightarrow> bool" where
  "eligible w b \<longleftrightarrow>
     snd (check_rate_limit (status_reply w) b) \<and> \<not> battled_recently (check_clock w) b"

text \<open>The record a visit leaves, and what \<^verbatim>\<open>run_bot_battle\<close> returns.\<close>

definition bot_after :: "llm_config \<Rightarrow> visit_world \<Rightarrow> bot \<Rightarrow> bot" where
  "bot_after cfg w b = (if eligible w b then fst (snd (run_bot_battle w b cfg)) else b)"

definition won :: "llm_config \<Rightarrow> visit_world \<Rightarrow> bot \<Rightarrow> bool" where
  "won cfg w b = snd (snd (run_bot_battle w b cfg))"


text \<open>The registration of slot \<open>i\<close> returns a record.\<close>

definition registration_succeeds :: "(nat \<Rightarrow> register_world) \<Rightarrow> nat \<Rightarrow> bool" where
  "registration_succeeds rw i \<longleftrightarrow>
     snd (register_bot (register_reply (rw i)) i (register_clock (rw i))) \<noteq> None"

subsection \<open>Sample inputs\<close>

definition sample_bot :: bot where
  "sample_bot =
     \<lparr>index = 0, agent_id = JStr ''agent-0'', api_key = JStr ''key-0'', name = JStr ''Bot-0'',
      registered = 0, last_battle = None, battles = Some 0\<rparr>"

definition sample_config :: llm_config where
  "sample_config =
     \<lparr>provider = ''deepseek'', llm_api_key = ''sk-test'', model = ''deepseek-chat''\<rparr>"

text \<open>A status reply that reports \<open>n\<close> remaining fights, and a registration reply that
  carries an identifier and a credential.\<close>

definition remaining :: "int \<Rightarrow> reply" where
  "remaining n = Responds 200 (Some (JObj [(''data'', JObj [(''fights_remaining'', JNum n)])]))"

definition registered_reply :: reply where
  "registered_reply =
     Responds 200 (Some (JObj [(''data'',
       JObj [(''agent_id'', JStr ''agent-0''), (''api_key'', JStr ''key-0'')])]))"

text \<open>
  The text \<^verbatim>\<open>json.dump\<close> writes, with \<^verbatim>\<open>indent=2\<close>, for the empty fleet
  created at the instant from which the samples count time; a reader that agrees with
  \<^verbatim>\<open>json.load\<close> on that text and on texts that are not JSON, such as the
  truncated text \<open>{\<close>; and a writer that agrees with \<^verbatim>\<open>json.dump\<close> on that
  manifest.
\<close>

definition sample_text :: string where
  "sample_text =
     ''{\<newline>  \"bots\": [],\<newline>  \"created\": \"2026-01-01T00:00:00\"\<newline>}''"

definition sample_json_load :: "string \<Rightarrow> exn + manifest" where
  "sample_json_load text =
     (if text = sample_text then Inr \<lparr>bots = [], created = 0\<rparr> else Inl JSONDecodeError)"





section \<open>Auxiliary facts\<close>

subsection \<open>Exceptions and parsed bodies\<close>

lemma and_then_Inr_iff:
  "and_then m f = Inr y \<longleftrightarrow> (\<exists>x. m = Inr x \<and> f x = Inr y)"
  by (cases m) (simp_all add: and_then_def)

lemma and_then_Inl_iff:
  "and_then m f = Inl e \<longleftrightarrow> (m = Inl e \<or> (\<exists>x. m = Inr x \<and> f x = Inl e))"
  by (cases m) (simp_all add: and_then_def)

lemma py_getitem_Inr_iff:
  "py_getitem j k = Inr v \<longleftrightarrow> (\<exists>kvs. j = JObj kvs \<and> map_of kvs k = Some v)"
  by (cases j) (auto split: option.splits)

lemma py_get_Inr_iff:
  "py_get j k d = Inr v \<longleftrightarrow>
     (\<exists>kvs. j = JObj kvs \<and> v = (case map_of kvs k of None \<Rightarrow> d | Some x \<Rightarrow> x))"
  by (cases j) auto

lemma py_gt_zero_True_iff:
  "py_gt_zero v = Inr True \<longleftrightarrow> (\<exists>n. v = JNum n \<and> 0 < n) \<or> v = JBool True"
  by (cases v) auto



subsection \<open>Traces of a visit and of a cycle\<close>

lemma battle_calls_append [simp]: "battle_calls (xs @ ys) = battle_calls xs @ battle_calls ys"
  by (simp add: battle_calls_def)

lemma rate_checks_append [simp]: "rate_checks (xs @ ys) = rate_checks xs @ rate_checks ys"
  by (simp add: rate_checks_def)

lemma register_calls_append [simp]:
  "register_calls (xs @ ys) = register_calls xs @ register_calls ys"
  by (simp add: register_calls_def)

lemma battle_calls_Nil [simp]: "battle_calls [] = []"
  by (simp add: battle_calls_def)

lemma battle_calls_Cons [simp]: "battle_calls (e # tr) = battle_of e @ battle_calls tr"
  by (simp add: battle_calls_def)

lemma rate_checks_Nil [simp]: "rate_checks [] = []"
  by (simp add: rate_checks_def)

lemma rate_checks_Cons [simp]: "rate_checks (e # tr) = rate_check_of e @ rate_checks tr"
  by (simp add: rate_checks_def)

lemma register_calls_Nil [simp]: "register_calls [] = []"
  by (simp add: register_calls_def)

lemma register_calls_Cons [simp]: "register_calls (e # tr) = register_of e @ register_calls tr"
  by (simp add: register_calls_def)

lemma check_rate_limit_logs:
  "battle_calls (fst (check_rate_limit r b)) = []"
  "rate_checks (fst (check_rate_limit r b)) = []"
  by (auto simp: check_rate_limit_def split: sum.splits option.splits)

lemma run_bot_battle_logs:
  "battle_calls (fst (run_bot_battle w b cfg)) = []"
  "rate_checks (fst (run_bot_battle w b cfg)) = []"
  by (auto simp: run_bot_battle_def split: process.splits)

lemma visit_bot: "fst (snd (visit cfg w p whole b)) = bot_after cfg w b"
  by (auto simp: visit_def bot_after_def eligible_def split: prod.splits)

lemma visit_won: "snd (snd (visit cfg w p whole b)) \<longleftrightarrow> eligible w b \<and> won cfg w b"
  by (auto simp: visit_def won_def eligible_def split: prod.splits)

lemma visit_battle_calls:
  "battle_calls (fst (visit cfg w p whole b)) =
     (if eligible w b then [(p, won cfg w b)] else [])"
  using check_rate_limit_logs(1) [of "status_reply w" b] run_bot_battle_logs(1) [of w b cfg]
  by (auto simp: visit_def won_def eligible_def split: prod.splits)


lemma bot_loop_step:
  assumes "visit cfg (ws (length visited)) (length visited)
             (\<lambda>b'. m\<lparr>bots := visited @ b' # rest\<rparr>) b = (tr, b', w)"
      and "bot_loop cfg ws m (visited @ [b']) rest (if w then n + 1 else n) = (tr', bs, k)"
  shows "bot_loop cfg ws m visited (b # rest) n = (tr @ tr', bs, k)"
  using assms by simp

lemma bot_loop_bots:
  "fst (snd (bot_loop cfg ws m visited todo n)) =
     visited @ map (\<lambda>(p, b). bot_after cfg (ws p) b) (List.enumerate (length visited) todo)"
proof (induction todo arbitrary: visited n)
  case Nil
  show ?case by simp
next
  case (Cons b rest)
  define whole where "whole = (\<lambda>b'. m\<lparr>bots := visited @ b' # rest\<rparr>)"
  obtain tr b' w where v: "visit cfg (ws (length visited)) (length visited) whole b = (tr, b', w)"
    by (cases "visit cfg (ws (length visited)) (length visited) whole b") auto
  obtain tr' bs k where
    l: "bot_loop cfg ws m (visited @ [b']) rest (if w then n + 1 else n) = (tr', bs, k)"
    by (cases "bot_loop cfg ws m (visited @ [b']) rest (if w then n + 1 else n)") auto
  have b': "b' = bot_after cfg (ws (length visited)) b"
    using visit_bot [of cfg "ws (length visited)" "length visited" whole b] v by simp
  have "bot_loop cfg ws m visited (b # rest) n = (tr @ tr', bs, k)"
    using v l unfolding whole_def by (rule bot_loop_step)
  moreover have "bs = (visited @ [b']) @
      map (\<lambda>(p, b). bot_after cfg (ws p) b) (List.enumerate (length (visited @ [b'])) rest)"
    using Cons.IH [of "visited @ [b']" "if w then n + 1 else n"] l by simp
  ultimately show ?case by (simp add: b')
qed

lemma bot_loop_battle_calls:
  "battle_calls (fst (bot_loop cfg ws m visited todo n)) =
     concat (map (\<lambda>(p, b). if eligible (ws p) b then [(p, won cfg (ws p) b)] else [])
                 (List.enumerate (length visited) todo))"
proof (induction todo arbitrary: visited n)
  case Nil
  show ?case by simp
next
  case (Cons b rest)
  define whole where "whole = (\<lambda>b'. m\<lparr>bots := visited @ b' # rest\<rparr>)"
  obtain tr b' w where v: "visit cfg (ws (length visited)) (length visited) whole b = (tr, b', w)"
    by (cases "visit cfg (ws (length visited)) (length visited) whole b") auto
  obtain tr' bs k where
    l: "bot_loop cfg ws m (visited @ [b']) rest (if w then n + 1 else n) = (tr', bs, k)"
    by (cases "bot_loop cfg ws m (visited @ [b']) rest (if w then n + 1 else n)") auto
  have tr: "battle_calls tr = (if eligible (ws (length visited)) b
              then [(length visited, won cfg (ws (length visited)) b)] else [])"
    using visit_battle_calls [of cfg "ws (length visited)" "length visited" whole b] v by simp
  have "bot_loop cfg ws m visited (b # rest) n = (tr @ tr', bs, k)"
    using v l unfolding whole_def by (rule bot_loop_step)
  moreover have "battle_calls tr' =
      concat (map (\<lambda>(p, b). if eligible (ws p) b then [(p, won cfg (ws p) b)] else [])
                 (List.enumerate (length (visited @ [b'])) rest))"
    using Cons.IH [of "visited @ [b']" "if w then n + 1 else n"] l by simp
  ultimately show ?case by (simp add: tr)
qed



lemma enumerate_calls_set:
  "(p, r) \<in> set (concat (map (\<lambda>(p, b). if E p b then [(p, W p b)] else []) (List.enumerate k xs)))
     \<longleftrightarrow> k \<le> p \<and> p < k + length xs \<and> E p (xs ! (p - k)) \<and> r = W p (xs ! (p - k))"
  by (auto simp: in_set_enumerate_eq split: if_splits)

lemma enumerate_calls_count:
  "count_list (concat (map (\<lambda>(p, b). if E p b then [(p, W p b)] else []) (List.enumerate k xs)))
       (i, True) =
     (if k \<le> i \<and> i < k + length xs \<and> E i (xs ! (i - k)) \<and> W i (xs ! (i - k)) then 1 else 0)"
proof (induction xs arbitrary: k)
  case Nil
  show ?case by simp
next
  case (Cons x xs)
  consider "i < k" | "i = k" | "k < i" by linarith
  then show ?case
  proof cases
    case 1
    then show ?thesis using Cons.IH [of "Suc k"] by simp
  next
    case 2
    then show ?thesis using Cons.IH [of "Suc k"] by simp
  next
    case 3
    then have nth: "(x # xs) ! (i - k) = xs ! (i - Suc k)"
      by (simp add: nth_Cons')
    from 3 show ?thesis using Cons.IH [of "Suc k"] unfolding nth by auto
  qed
qed

lemma cycle_alt:
  "cycle cfg ws m =
     (fst (bot_loop cfg ws m [] (bots m) 0) @ [Sleep 600],
      m\<lparr>bots := fst (snd (bot_loop cfg ws m [] (bots m) 0))\<rparr>)"
  by (simp add: cycle_def split: prod.splits)

lemma cycles_Suc_alt:
  "cycles cfg cw (Suc n) m =
     (fst (cycles cfg cw n m) @ fst (cycle cfg (cw n) (snd (cycles cfg cw n m))),
      snd (cycle cfg (cw n) (snd (cycles cfg cw n m))))"
  by (simp split: prod.splits)

lemma cycle_bots:
  "bots (snd (cycle cfg ws m)) =
     map (\<lambda>(p, b). bot_after cfg (ws p) b) (List.enumerate 0 (bots m))"
  using bot_loop_bots [of cfg ws m "[]" "bots m" 0]
  by (simp add: cycle_alt)

lemma cycle_created: "created (snd (cycle cfg ws m)) = created m"
  by (simp add: cycle_alt)

lemma cycle_length: "length (bots (snd (cycle cfg ws m))) = length (bots m)"
  by (simp add: cycle_bots)

lemma cycle_nth:
  "i < length (bots m) \<Longrightarrow> bots (snd (cycle cfg ws m)) ! i = bot_after cfg (ws i) (bots m ! i)"
  by (simp add: cycle_bots nth_enumerate_eq)

lemma cycle_battle_calls:
  "battle_calls (fst (cycle cfg ws m)) =
     concat (map (\<lambda>(p, b). if eligible (ws p) b then [(p, won cfg (ws p) b)] else [])
                 (List.enumerate 0 (bots m)))"
  using bot_loop_battle_calls [of cfg ws m "[]" "bots m" 0]
  by (simp add: cycle_alt)


lemma cycle_battle_iff:
  "(p, r) \<in> set (battle_calls (fst (cycle cfg ws m))) \<longleftrightarrow>
     p < length (bots m) \<and> eligible (ws p) (bots m ! p) \<and> r = won cfg (ws p) (bots m ! p)"
  unfolding cycle_battle_calls
  using enumerate_calls_set [of p r "\<lambda>p. eligible (ws p)" "\<lambda>p. won cfg (ws p)" 0 "bots m"]
  by simp

lemma cycle_battle_count:
  "count_list (battle_calls (fst (cycle cfg ws m))) (i, True) =
     (if i < length (bots m) \<and> eligible (ws i) (bots m ! i) \<and> won cfg (ws i) (bots m ! i)
      then 1 else 0)"
  unfolding cycle_battle_calls
  using enumerate_calls_count [of "\<lambda>p. eligible (ws p)" "\<lambda>p. won cfg (ws p)" 0 "bots m" i]
  by simp

lemma run_bot_battle_cases:
  "run_bot_battle w b cfg =
     (fst (run_bot_battle w b cfg),
      if battle_process w = Completed 0
      then b\<lparr>last_battle := Some (battle_clock w), battles := Some (get_battles b + 1)\<rparr>
      else b,
      battle_process w = Completed 0)"
  by (auto simp: run_bot_battle_def split: process.splits)

lemma won_iff: "won cfg w b \<longleftrightarrow> battle_process w = Completed 0"
  by (auto simp: won_def run_bot_battle_def split: process.splits)

lemma get_battles_bot_after:
  "get_battles (bot_after cfg w b) =
     get_battles b + (if eligible w b \<and> won cfg w b then 1 else 0)"
  by (auto simp: bot_after_def won_def run_bot_battle_def get_battles_def split: process.splits)

lemma cycles_length: "length (bots (snd (cycles cfg cw n m))) = length (bots m)"
  by (induction n) (simp_all add: cycle_length cycles_Suc_alt del: cycles.simps(2))

lemma cycles_battles:
  "i < length (bots m) \<Longrightarrow>
     get_battles (bots (snd (cycles cfg cw n m)) ! i) =
       get_battles (bots m ! i) + int (count_list (battle_calls (fst (cycles cfg cw n m))) (i, True))"
proof (induction n)
  case 0
  show ?case by simp
next
  case (Suc n)
  obtain tr m' where c: "cycles cfg cw n m = (tr, m')"
    by (cases "cycles cfg cw n m") auto
  obtain tr' m'' where c': "cycle cfg (cw n) m' = (tr', m'')"
    by (cases "cycle cfg (cw n) m'") auto
  have len: "i < length (bots m')"
    using cycles_length [of cfg cw n m] c Suc.prems by simp
  have "get_battles (bots m'' ! i) =
          get_battles (bots m' ! i) + int (count_list (battle_calls tr') (i, True))"
    using cycle_nth [OF len, of cfg "cw n"] cycle_battle_count [of cfg "cw n" m' i] c' len
    by (simp add: get_battles_bot_after)
  then show ?case using Suc c c' by simp
qed

subsection \<open>The registration loop\<close>

lemma register_bot_logs: "register_calls (fst (register_bot r i t)) = []"
  by (auto simp: register_bot_def split: sum.splits)

lemma register_loop_stop:
  "\<not> int (length (bots m)) < T \<Longrightarrow> register_loop T rw m = ([], m)"
  by (simp add: register_loop.simps)

lemma register_loop_fail:
  assumes "int (length (bots m)) < T" and "\<not> registration_succeeds rw (length (bots m))"
  shows "register_loop T rw m =
           (fst (register_bot (register_reply (rw (length (bots m)))) (length (bots m))
                   (register_clock (rw (length (bots m)))))
              @ [Register (length (bots m)) None,
                 Log Warning Registration_failed_will_retry_later], m)"
  using assms
  by (subst register_loop.simps) (auto simp: registration_succeeds_def Let_def split: prod.splits)

lemma register_loop_succeed:
  assumes "int (length (bots m)) < T"
      and "register_bot (register_reply (rw (length (bots m)))) (length (bots m))
             (register_clock (rw (length (bots m)))) = (logged, Some b)"
  shows "register_loop T rw m =
           (logged @ [Register (length (bots m)) (Some b), Save (m\<lparr>bots := bots m @ [b]\<rparr>), Sleep 1]
              @ fst (register_loop T rw (m\<lparr>bots := bots m @ [b]\<rparr>)),
            snd (register_loop T rw (m\<lparr>bots := bots m @ [b]\<rparr>)))"
  using assms
  by (subst register_loop.simps) (auto simp: Let_def split: prod.splits)

lemma register_loop_attempts:
  assumes "length (bots m) \<le> j" and "int j \<le> T"
      and "\<forall>i. length (bots m) \<le> i \<and> i < j \<longrightarrow> registration_succeeds rw i"
      and "int j = T \<or> \<not> registration_succeeds rw j"
  shows "map fst (register_calls (fst (register_loop T rw m))) =
           [length (bots m) ..< (if int j = T then j else Suc j)]
         \<and> length (bots (snd (register_loop T rw m))) = j"
  using assms
proof (induction "j - length (bots m)" arbitrary: m)
  case 0
  then have eq: "length (bots m) = j" by simp
  show ?case
  proof (cases "int j = T")
    case True
    then show ?thesis using eq by (simp add: register_loop_stop)
  next
    case False
    then have "int (length (bots m)) < T" and "\<not> registration_succeeds rw (length (bots m))"
      using 0 eq by auto
    then show ?thesis
      using register_loop_fail [of m T rw] register_bot_logs eq False by simp
  qed
next
  case (Suc d)
  then have lt: "length (bots m) < j" by simp
  then have ok: "registration_succeeds rw (length (bots m))" using Suc.prems by simp
  have ltT: "int (length (bots m)) < T" using lt Suc.prems by simp
  obtain logged b where r: "register_bot (register_reply (rw (length (bots m)))) (length (bots m))
             (register_clock (rw (length (bots m)))) = (logged, Some b)"
    using ok unfolding registration_succeeds_def
    by (cases "register_bot (register_reply (rw (length (bots m)))) (length (bots m))
             (register_clock (rw (length (bots m))))") auto
  define m' where "m' = m\<lparr>bots := bots m @ [b]\<rparr>"
  have len': "length (bots m') = Suc (length (bots m))" by (simp add: m'_def)
  have IH: "map fst (register_calls (fst (register_loop T rw m'))) =
           [length (bots m') ..< (if int j = T then j else Suc j)]
         \<and> length (bots (snd (register_loop T rw m'))) = j"
  proof (rule Suc.hyps(1))
    show "d = j - length (bots m')" using Suc.hyps(2) len' by simp
    show "length (bots m') \<le> j" using lt len' by simp
    show "int j \<le> T" by (rule Suc.prems(2))
    show "\<forall>i. length (bots m') \<le> i \<and> i < j \<longrightarrow> registration_succeeds rw i"
      using Suc.prems(3) len' by simp
    show "int j = T \<or> \<not> registration_succeeds rw j" by (rule Suc.prems(4))
  qed
  have logged: "register_calls logged = []"
    using register_bot_logs [of "register_reply (rw (length (bots m)))" "length (bots m)"
        "register_clock (rw (length (bots m)))"] r by simp
  have step: "register_loop T rw m =
           (logged @ [Register (length (bots m)) (Some b), Save m', Sleep 1]
              @ fst (register_loop T rw m'), snd (register_loop T rw m'))"
    using register_loop_succeed [of m T rw logged b] ltT r by (simp add: m'_def)
  have "[length (bots m) ..< (if int j = T then j else Suc j)] =
          length (bots m) # [length (bots m') ..< (if int j = T then j else Suc j)]"
    using lt len' by (simp add: upt_conv_Cons)
  then show ?case using step IH logged by simp
qed

lemma register_loop_keeps:
  "bots (snd (register_loop T rw m)) =
     bots m @ List.map_filter snd (register_calls (fst (register_loop T rw m)))
   \<and> created (snd (register_loop T rw m)) = created m"
proof (induction T rw m rule: register_loop.induct)
  case (1 T rw m)
  show ?case
  proof (cases "int (length (bots m)) < T")
    case False
    then show ?thesis by (simp add: register_loop_stop List.map_filter_simps)
  next
    case True
    show ?thesis
    proof (cases "registration_succeeds rw (length (bots m))")
      case False
      then show ?thesis
        using register_loop_fail [of m T rw] True False register_bot_logs
        by (simp add: List.map_filter_simps)
    next
      case ok: True
      obtain logged b where r: "register_bot (register_reply (rw (length (bots m)))) (length (bots m))
             (register_clock (rw (length (bots m)))) = (logged, Some b)"
        using ok unfolding registration_succeeds_def
        by (cases "register_bot (register_reply (rw (length (bots m)))) (length (bots m))
             (register_clock (rw (length (bots m))))") auto
      have logged: "register_calls logged = []"
        using register_bot_logs [of "register_reply (rw (length (bots m)))" "length (bots m)"
            "register_clock (rw (length (bots m)))"] r by simp
      have IH: "bots (snd (register_loop T rw (m\<lparr>bots := bots m @ [b]\<rparr>))) =
           bots (m\<lparr>bots := bots m @ [b]\<rparr>) @
             List.map_filter snd (register_calls (fst (register_loop T rw (m\<lparr>bots := bots m @ [b]\<rparr>))))
         \<and> created (snd (register_loop T rw (m\<lparr>bots := bots m @ [b]\<rparr>))) =
             created (m\<lparr>bots := bots m @ [b]\<rparr>)"
        using "1.IH" [OF True refl r [symmetric] refl refl] by simp
      show ?thesis
        using register_loop_succeed [of m T rw logged b] True r IH logged
        by (simp add: List.map_filter_simps)
    qed
  qed
qed

subsection \<open>Start-up, and the set-up script\<close>


lemma main_alt:
  "main environ jl now file T rw cw n =
     (case get_llm_config environ of
        Inl a \<Rightarrow> Inl a
      | Inr cfg \<Rightarrow>
          (case load_manifest jl now file of
             Inl e \<Rightarrow> Inl (Uncaught e)
           | Inr m \<Rightarrow>
               Inr (fst (register_loop T rw m) @ fst (cycles cfg cw n (snd (register_loop T rw m))),
                    snd (cycles cfg cw n (snd (register_loop T rw m))))))"
  by (simp add: main_def split: sum.splits prod.splits)

lemma register_bot_on_clawcombat_reraises:
  "register_bot_on_clawcombat (Fails e) i = ([Failed_to_register i e], Inl e)"
  by (simp add: register_bot_on_clawcombat_def register_bot_on_clawcombat_try_def)

section \<open>The properties\<close>



text \<open>
  C4. In every cycle, an agent whose \<^verbatim>\<open>last_battle\<close> is set and lies less than 55
  minutes before the clock read by the cool-down test is not handed to
  \<^verbatim>\<open>run_bot_battle\<close>, whatever the status query replied, and its record is left as
  it was.
\<close>

theorem cooldown_blocks_action_runner:
  assumes "p < length (bots m)"
      and "last_battle (bots m ! p) = Some t"
      and "check_clock (ws p) - t < timedelta_minutes 55"
  shows "(\<forall>r. (p, r) \<notin> set (battle_calls (fst (cycle cfg ws m))))
         \<and> bots (snd (cycle cfg ws m)) ! p = bots m ! p"
proof -
  have "battled_recently (check_clock (ws p)) (bots m ! p)"
    using assms(2,3) by (simp add: battled_recently_def)
  then have "\<not> eligible (ws p) (bots m ! p)" by (simp add: eligible_def)
  then show ?thesis
    using assms(1) by (simp add: cycle_battle_iff cycle_nth bot_after_def)
qed

theorem cooldown_blocks_action_runner_witness:
  "(0::nat) < length (bots \<lparr>bots = [sample_bot\<lparr>last_battle := Some 0\<rparr>], created = 0\<rparr>)
   \<and> last_battle (bots \<lparr>bots = [sample_bot\<lparr>last_battle := Some 0\<rparr>], created = 0\<rparr> ! 0) = Some 0
   \<and> (600000000::int) - 0 < timedelta_minutes 55
   \<and> (\<forall>r. (0, r) \<notin> set (battle_calls (fst (cycle sample_config
         (\<lambda>p. \<lparr>status_reply = remaining 5, check_clock = 600000000,
               battle_process = Completed 0, battle_clock = 900000000\<rparr>)
         \<lparr>bots = [sample_bot\<lparr>last_battle := Some 0\<rparr>], created = 0\<rparr>))))
   \<and> bots (snd (cycle sample_config
         (\<lambda>p. \<lparr>status_reply = remaining 5, check_clock = 600000000,
               battle_process = Completed 0, battle_clock = 900000000\<rparr>)
         \<lparr>bots = [sample_bot\<lparr>last_battle := Some 0\<rparr>], created = 0\<rparr>)) ! 0
       = sample_bot\<lparr>last_battle := Some 0\<rparr>"
  using cooldown_blocks_action_runner [of 0
      "\<lparr>bots = [sample_bot\<lparr>last_battle := Some 0\<rparr>], created = 0\<rparr>" 0
      "\<lambda>p. \<lparr>status_reply = remaining 5, check_clock = 600000000,
               battle_process = Completed 0, battle_clock = 900000000\<rparr>" sample_config]
  by (simp add: timedelta_minutes_def)

text \<open>
  C5. Over any number of cycles the fleet keeps its size, and the battle count of the
  agent at position \<open>i\<close> is its count at the start plus the number of calls of
  \<^verbatim>\<open>run_bot_battle\<close> on that agent that returned \<^verbatim>\<open>True\<close>; so it never
  decreases from one cycle to the next. Within one visit the count goes up by one
  exactly when the visit called \<^verbatim>\<open>run_bot_battle\<close> and the call reported success,
  and is unchanged when the agent was skipped or the call reported failure.
\<close>

theorem action_count_counts_successes:
  assumes "i < length (bots m)"
  shows "length (bots (snd (cycles cfg cw n m))) = length (bots m)
       \<and> get_battles (bots (snd (cycles cfg cw n m)) ! i) =
           get_battles (bots m ! i)
             + int (count_list (battle_calls (fst (cycles cfg cw n m))) (i, True))
       \<and> get_battles (bots (snd (cycles cfg cw n m)) ! i)
           \<le> get_battles (bots (snd (cycles cfg cw (Suc n) m)) ! i)
       \<and> get_battles (fst (snd (visit cfg w p whole b))) =
           get_battles b + (if battle_calls (fst (visit cfg w p whole b)) = [(p, True)]
                            then 1 else 0)"
proof -
  have "get_battles (bots (snd (cycles cfg cw (Suc n) m)) ! i) =
          get_battles (bots m ! i)
             + int (count_list (battle_calls (fst (cycles cfg cw (Suc n) m))) (i, True))"
    using assms by (rule cycles_battles)
  moreover have "get_battles (bots (snd (cycles cfg cw n m)) ! i) =
           get_battles (bots m ! i)
             + int (count_list (battle_calls (fst (cycles cfg cw n m))) (i, True))"
    using assms by (rule cycles_battles)
  moreover have "count_list (battle_calls (fst (cycles cfg cw n m))) (i, True)
      \<le> count_list (battle_calls (fst (cycles cfg cw (Suc n) m))) (i, True)"
    by (simp add: cycles_Suc_alt del: cycles.simps(2))
  moreover have "get_battles (fst (snd (visit cfg w p whole b))) =
           get_battles b + (if battle_calls (fst (visit cfg w p whole b)) = [(p, True)]
                            then 1 else 0)"
    by (simp add: visit_bot visit_battle_calls get_battles_bot_after)
  ultimately show ?thesis by (simp add: cycles_length)
qed

theorem action_count_counts_successes_witness:
  "(0::nat) < length (bots \<lparr>bots = [sample_bot], created = 0\<rparr>)
   \<and> battle_calls (fst (cycles sample_config
         (\<lambda>k p. \<lparr>status_reply = remaining 1, check_clock = int k * 600000000,
                 battle_process = Completed 0, battle_clock = int k * 600000000 + 1\<rparr>)
         2 \<lparr>bots = [sample_bot], created = 0\<rparr>)) = [(0, True)]
   \<and> get_battles sample_bot = 0
   \<and> get_battles (bots (snd (cycles sample_config
         (\<lambda>k p. \<lparr>status_reply = remaining 1, check_clock = int k * 600000000,
                 battle_process = Completed 0, battle_clock = int k * 600000000 + 1\<rparr>)
         2 \<lparr>bots = [sample_bot], created = 0\<rparr>)) ! 0) = 1"
proof -
  define cw where "cw = (\<lambda>(k::nat) (p::nat).
      \<lparr>status_reply = remaining 1, check_clock = int k * 600000000,
       battle_process = Completed 0, battle_clock = int k * 600000000 + 1\<rparr>)"
  have r1: "check_rate_limit (remaining 1) b = ([], True)" for b
    by (simp add: check_rate_limit_def check_rate_limit_try_def remaining_def response_ok_def
        raise_for_status_def response_json_def and_then_def)
  have sb: "last_battle sample_bot = None" "battles sample_bot = Some 0"
    by (simp_all add: sample_bot_def)
  have c1: "cycle sample_config (cw 0) \<lparr>bots = [sample_bot], created = 0\<rparr> =
      ([Rate_check 0 True, Battle 0 True,
        Save \<lparr>bots = [sample_bot\<lparr>last_battle := Some 1, battles := Some 1\<rparr>], created = 0\<rparr>,
        Sleep 5, Sleep 600],
       \<lparr>bots = [sample_bot\<lparr>last_battle := Some 1, battles := Some 1\<rparr>], created = 0\<rparr>)"
    by (simp add: cycle_def visit_def cw_def r1 battled_recently_def sb run_bot_battle_def
        get_battles_def)
  have c2: "cycle sample_config (cw 1)
        \<lparr>bots = [sample_bot\<lparr>last_battle := Some 1, battles := Some 1\<rparr>], created = 0\<rparr> =
      ([Rate_check 0 True, Sleep 600],
       \<lparr>bots = [sample_bot\<lparr>last_battle := Some 1, battles := Some 1\<rparr>], created = 0\<rparr>)"
    by (simp add: cycle_def visit_def cw_def r1 battled_recently_def timedelta_minutes_def)
  have run: "cycles sample_config cw 2 \<lparr>bots = [sample_bot], created = 0\<rparr> =
      ([Rate_check 0 True, Battle 0 True,
        Save \<lparr>bots = [sample_bot\<lparr>last_battle := Some 1, battles := Some 1\<rparr>], created = 0\<rparr>,
        Sleep 5, Sleep 600, Rate_check 0 True, Sleep 600],
       \<lparr>bots = [sample_bot\<lparr>last_battle := Some 1, battles := Some 1\<rparr>], created = 0\<rparr>)"
    using c1 c2 by (simp add: numeral_2_eq_2)
  show ?thesis
    using action_count_counts_successes [of 0 "\<lparr>bots = [sample_bot], created = 0\<rparr>"
        sample_config cw 2] run
    unfolding cw_def [symmetric]
    by (simp add: get_battles_def sb)
qed



text \<open>
  C7. When the child process of a battle does not end with return code 0 (it is killed
  by the time limit, ends with another return code, or cannot be run at all),
  \<^verbatim>\<open>run_bot_battle\<close> returns \<^verbatim>\<open>False\<close> and the agent record it returns is the
  one it was given. The loop then goes on with the remaining agents: its result is the
  trace of this visit followed by the result of the loop on the rest, with the record
  and \<^verbatim>\<open>battles_run\<close> unchanged.
\<close>

theorem failed_battle_leaves_record:
  assumes "battle_process (ws (length visited)) \<noteq> Completed 0"
  shows "snd (run_bot_battle (ws (length visited)) b cfg) = (b, False)
       \<and> bot_loop cfg ws m visited (b # rest) n =
           (fst (visit cfg (ws (length visited)) (length visited)
                   (\<lambda>b'. m\<lparr>bots := visited @ b' # rest\<rparr>) b)
              @ fst (bot_loop cfg ws m (visited @ [b]) rest n),
            snd (bot_loop cfg ws m (visited @ [b]) rest n))"
proof -
  define whole where "whole = (\<lambda>b'. m\<lparr>bots := visited @ b' # rest\<rparr>)"
  have run: "snd (run_bot_battle (ws (length visited)) b cfg) = (b, False)"
    using assms by (subst run_bot_battle_cases) simp
  have nw: "\<not> won cfg (ws (length visited)) b" using assms by (simp add: won_iff)
  have b': "fst (snd (visit cfg (ws (length visited)) (length visited) whole b)) = b"
    using run by (simp add: visit_bot bot_after_def)
  have w: "\<not> snd (snd (visit cfg (ws (length visited)) (length visited) whole b))"
    using nw by (simp add: visit_won)
  have "visit cfg (ws (length visited)) (length visited) whole b =
          (fst (visit cfg (ws (length visited)) (length visited) whole b), b, False)"
    using b' w by (metis prod.collapse)
  moreover have "bot_loop cfg ws m (visited @ [b]) rest (if False then n + 1 else n) =
      (fst (bot_loop cfg ws m (visited @ [b]) rest n),
       fst (snd (bot_loop cfg ws m (visited @ [b]) rest n)),
       snd (snd (bot_loop cfg ws m (visited @ [b]) rest n)))"
    by simp
  ultimately have "bot_loop cfg ws m visited (b # rest) n =
      (fst (visit cfg (ws (length visited)) (length visited) whole b)
         @ fst (bot_loop cfg ws m (visited @ [b]) rest n),
       fst (snd (bot_loop cfg ws m (visited @ [b]) rest n)),
       snd (snd (bot_loop cfg ws m (visited @ [b]) rest n)))"
    unfolding whole_def by (rule bot_loop_step)
  then show ?thesis using run by (simp add: whole_def)
qed

theorem failed_battle_leaves_record_witness:
  "Raises TimeoutExpired \<noteq> Completed 0
   \<and> bot_loop sample_config
        (\<lambda>p. if p = 0
              then \<lparr>status_reply = remaining 1, check_clock = 0,
                    battle_process = Raises TimeoutExpired, battle_clock = 0\<rparr>
              else \<lparr>status_reply = remaining 1, check_clock = 0,
                    battle_process = Completed 0, battle_clock = 7\<rparr>)
        \<lparr>bots = [sample_bot, sample_bot\<lparr>index := 1\<rparr>], created = 0\<rparr>
        [] [sample_bot, sample_bot\<lparr>index := 1\<rparr>] 0
      = ([Rate_check 0 True, Log Warning (Battle_timeout (JStr ''Bot-0'')), Battle 0 False,
          Sleep 5, Rate_check 1 True, Battle 1 True,
          Save \<lparr>bots = [sample_bot,
                         sample_bot\<lparr>index := 1, last_battle := Some 7, battles := Some 1\<rparr>],
                 created = 0\<rparr>,
          Sleep 5],
         [sample_bot, sample_bot\<lparr>index := 1, last_battle := Some 7, battles := Some 1\<rparr>], 1)"
proof -
  have r1: "check_rate_limit (remaining 1) b = ([], True)" for b
    by (simp add: check_rate_limit_def check_rate_limit_try_def remaining_def response_ok_def
        raise_for_status_def response_json_def and_then_def)
  have none: "last_battle sample_bot = None" "name sample_bot = JStr ''Bot-0''"
    "battles sample_bot = Some 0"
    by (simp_all add: sample_bot_def)
  show ?thesis
    using failed_battle_leaves_record [of
        "\<lambda>p. if p = 0
              then \<lparr>status_reply = remaining 1, check_clock = 0,
                    battle_process = Raises TimeoutExpired, battle_clock = 0\<rparr>
              else \<lparr>status_reply = remaining 1, check_clock = 0,
                    battle_process = Completed 0, battle_clock = 7\<rparr>"
        "[]" sample_bot sample_config
        "\<lparr>bots = [sample_bot, sample_bot\<lparr>index := 1\<rparr>], created = 0\<rparr>"
        "[sample_bot\<lparr>index := 1\<rparr>]" 0]
    by (simp add: visit_def r1 battled_recently_def none run_bot_battle_def get_battles_def)
qed

text \<open>
  C3. Starting from a manifest of size \<open>K\<close> below the target \<^verbatim>\<open>BOT_COUNT\<close>, the
  registration loop calls \<^verbatim>\<open>register_bot\<close> for the slots \<open>K, K + 1, \<dots>\<close> in this
  order. If every registration succeeds it makes exactly \<^verbatim>\<open>BOT_COUNT\<close> minus \<open>K\<close>
  calls and the fleet reaches the target. If slot \<open>j\<close> is the first to fail, the calls
  are those for \<open>K\<close> up to \<open>j\<close> and no more, and the fleet has size \<open>j\<close>. In every
  case the manifest keeps the agents it had, followed by those registered in this run,
  and \<^verbatim>\<open>main\<close> goes on to the cycle loop with that manifest.
\<close>

theorem bootstrapping_registrations:
  assumes "int (length (bots m)) < T"
  shows "((\<forall>i. length (bots m) \<le> i \<and> int i < T \<longrightarrow> registration_succeeds rw i) \<longrightarrow>
            map fst (register_calls (fst (register_loop T rw m))) = [length (bots m) ..< nat T]
            \<and> int (length (register_calls (fst (register_loop T rw m)))) = T - int (length (bots m))
            \<and> int (length (bots (snd (register_loop T rw m)))) = T)
       \<and> (\<forall>j. length (bots m) \<le> j \<and> int j < T
                \<and> (\<forall>i. length (bots m) \<le> i \<and> i < j \<longrightarrow> registration_succeeds rw i)
                \<and> \<not> registration_succeeds rw j \<longrightarrow>
            map fst (register_calls (fst (register_loop T rw m))) = [length (bots m) ..< Suc j]
            \<and> length (bots (snd (register_loop T rw m))) = j)
       \<and> bots (snd (register_loop T rw m)) =
            bots m @ List.map_filter snd (register_calls (fst (register_loop T rw m)))
       \<and> (get_llm_config environ = Inr cfg \<and> load_manifest jl now file = Inr m \<longrightarrow>
            main environ jl now file T rw cw n =
              Inr (fst (register_loop T rw m) @ fst (cycles cfg cw n (snd (register_loop T rw m))),
                   snd (cycles cfg cw n (snd (register_loop T rw m)))))"
proof (intro conjI impI allI)
  assume ok: "\<forall>i. length (bots m) \<le> i \<and> int i < T \<longrightarrow> registration_succeeds rw i"
  have *: "map fst (register_calls (fst (register_loop T rw m))) =
             [length (bots m) ..< (if int (nat T) = T then nat T else Suc (nat T))]
           \<and> length (bots (snd (register_loop T rw m))) = nat T"
    using assms ok by (intro register_loop_attempts) auto
  from * assms show "map fst (register_calls (fst (register_loop T rw m))) =
      [length (bots m) ..< nat T]" by simp
  from * assms have "length (map fst (register_calls (fst (register_loop T rw m)))) =
      nat T - length (bots m)" by simp
  with assms show "int (length (register_calls (fst (register_loop T rw m)))) =
      T - int (length (bots m))" by simp
  from * assms show "int (length (bots (snd (register_loop T rw m)))) = T" by simp
next
  fix j
  assume j: "length (bots m) \<le> j \<and> int j < T
      \<and> (\<forall>i. length (bots m) \<le> i \<and> i < j \<longrightarrow> registration_succeeds rw i)
      \<and> \<not> registration_succeeds rw j"
  have *: "map fst (register_calls (fst (register_loop T rw m))) =
             [length (bots m) ..< (if int j = T then j else Suc j)]
           \<and> length (bots (snd (register_loop T rw m))) = j"
    using j by (intro register_loop_attempts) auto
  from * j show "map fst (register_calls (fst (register_loop T rw m))) =
      [length (bots m) ..< Suc j]" by simp
  from * show "length (bots (snd (register_loop T rw m))) = j" by simp
next
  show "bots (snd (register_loop T rw m)) =
      bots m @ List.map_filter snd (register_calls (fst (register_loop T rw m)))"
    using register_loop_keeps [of T rw m] by simp
next
  assume "get_llm_config environ = Inr cfg \<and> load_manifest jl now file = Inr m"
  then show "main environ jl now file T rw cw n =
      Inr (fst (register_loop T rw m) @ fst (cycles cfg cw n (snd (register_loop T rw m))),
           snd (cycles cfg cw n (snd (register_loop T rw m))))"
    by (simp add: main_alt)
qed

theorem bootstrapping_registrations_witness:
  "int (length (bots \<lparr>bots = [], created = 0\<rparr>)) < 3
   \<and> map fst (register_calls (fst (register_loop 3
         (\<lambda>i. \<lparr>register_reply = registered_reply, register_clock = 0\<rparr>)
         \<lparr>bots = [], created = 0\<rparr>))) = [0, 1, 2]
   \<and> map (\<lambda>b. (index b, name b, last_battle b, battles b)) (bots (snd (register_loop 3
         (\<lambda>i. \<lparr>register_reply = registered_reply, register_clock = 0\<rparr>)
         \<lparr>bots = [], created = 0\<rparr>)))
       = [(0, JStr ''Bot-0'', None, Some 0), (1, JStr ''Bot-1'', None, Some 0),
          (2, JStr ''Bot-2'', None, Some 0)]
   \<and> map fst (register_calls (fst (register_loop 3
         (\<lambda>i. \<lparr>register_reply = (if i < 1 then registered_reply else Fails Timeout),
               register_clock = 0\<rparr>)
         \<lparr>bots = [], created = 0\<rparr>))) = [0, 1]
   \<and> length (bots (snd (register_loop 3
         (\<lambda>i. \<lparr>register_reply = (if i < 1 then registered_reply else Fails Timeout),
               register_clock = 0\<rparr>)
         \<lparr>bots = [], created = 0\<rparr>))) = 1"
proof -
  define rw1 where "rw1 = (\<lambda>i::nat. \<lparr>register_reply = registered_reply, register_clock = 0\<rparr>)"
  define rw2 where "rw2 = (\<lambda>i::nat.
      \<lparr>register_reply = (if i < 1 then registered_reply else Fails Timeout), register_clock = 0\<rparr>)"
  have reg: "register_bot registered_reply i 0 =
      ([], Some \<lparr>index = i, agent_id = JStr ''agent-0'', api_key = JStr ''key-0'',
                 name = JStr (''Bot-'' @ str_nat i), registered = 0, last_battle = None,
                 battles = Some 0\<rparr>)" for i
    by (simp add: register_bot_def register_bot_try_def registered_reply_def
        raise_for_status_def response_json_def and_then_def)
  have ok1: "registration_succeeds rw1 i" for i
    by (simp add: registration_succeeds_def rw1_def reg)
  have ok2: "registration_succeeds rw2 0"
    by (simp add: registration_succeeds_def rw2_def reg)
  have bad2: "\<not> registration_succeeds rw2 1"
    by (simp add: registration_succeeds_def rw2_def register_bot_def register_bot_try_def)
  have names: "str_nat 0 = ''0''" "str_nat (Suc 0) = ''1''" "str_nat (Suc (Suc 0)) = ''2''"
    by (simp_all add: str_nat.simps)
  have run: "map (\<lambda>b. (index b, name b, last_battle b, battles b))
        (bots (snd (register_loop 3 rw1 \<lparr>bots = [], created = 0\<rparr>)))
       = [(0, JStr ''Bot-0'', None, Some 0), (1, JStr ''Bot-1'', None, Some 0),
          (2, JStr ''Bot-2'', None, Some 0)]"
    by (simp add: register_loop.simps rw1_def reg names Let_def)
  have a: "map fst (register_calls (fst (register_loop 3 rw1 \<lparr>bots = [], created = 0\<rparr>)))
      = [0, 1, 2]"
    using bootstrapping_registrations [of "\<lparr>bots = [], created = 0\<rparr>" 3 rw1] ok1
    by (simp add: upt_rec)
  have b: "map fst (register_calls (fst (register_loop 3 rw2 \<lparr>bots = [], created = 0\<rparr>)))
      = [0, 1]
    \<and> length (bots (snd (register_loop 3 rw2 \<lparr>bots = [], created = 0\<rparr>))) = 1"
  proof -
    have "length (bots \<lparr>bots = [], created = 0\<rparr>) \<le> 1 \<and> int 1 < 3
        \<and> (\<forall>i. length (bots \<lparr>bots = [], created = 0\<rparr>) \<le> i \<and> i < 1
               \<longrightarrow> registration_succeeds rw2 i)
        \<and> \<not> registration_succeeds rw2 1"
      using ok2 bad2 by auto
    moreover have lt: "int (length (bots \<lparr>bots = [], created = 0\<rparr>)) < 3" by simp
    ultimately have "map fst (register_calls (fst (register_loop 3 rw2 \<lparr>bots = [], created = 0\<rparr>)))
        = [length (bots \<lparr>bots = [], created = 0\<rparr>) ..< Suc 1]
      \<and> length (bots (snd (register_loop 3 rw2 \<lparr>bots = [], created = 0\<rparr>))) = 1"
      using bootstrapping_registrations [of "\<lparr>bots = [], created = 0\<rparr>" 3 rw2, OF lt,
          THEN conjunct2, THEN conjunct1, rule_format, of 1]
      by simp
    then show ?thesis by (simp add: upt_rec)
  qed
  show ?thesis
    using a b run unfolding rw1_def rw2_def by simp
qed

text \<open>
  C1, as the code has it. When no manifest file exists, \<^verbatim>\<open>load_manifest\<close> returns
  an empty fleet created at the current clock reading. When the file exists, the result
  is that of \<^verbatim>\<open>json.load\<close>: the manifest the text parses to, or the exception
  \<^verbatim>\<open>json.load\<close> raises on a text it cannot parse, which \<^verbatim>\<open>load_manifest\<close>
  does not catch.
\<close>

theorem load_manifest_outcomes:
  "load_manifest jl now None = Inr \<lparr>bots = [], created = now\<rparr>
   \<and> load_manifest jl now (Some text) = jl text"
  by (simp add: load_manifest_def)

theorem load_manifest_outcomes_witness:
  "load_manifest sample_json_load 7 None = Inr \<lparr>bots = [], created = 7\<rparr>
   \<and> load_manifest sample_json_load 7 (Some sample_text) = Inr \<lparr>bots = [], created = 0\<rparr>"
  using load_manifest_outcomes [of sample_json_load 7 sample_text]
  by (simp add: sample_json_load_def)

text \<open>
  C1 as stated fails: on a manifest file that holds the truncated text \<open>{\<close> the load
  raises \<^verbatim>\<open>JSONDecodeError\<close> instead of returning an empty fleet.
\<close>

theorem load_manifest_corrupt_raises:
  "load_manifest sample_json_load 0 (Some ''{'') = Inl JSONDecodeError"
  by (simp add: load_manifest_def sample_json_load_def sample_text_def)



text \<open>
  C2, as the code has it. For every index, when the registration request raises, or the
  response has an error status (400 to 599), or anything else in the \<^verbatim>\<open>try\<close> block
  raises, \<^verbatim>\<open>register_bot\<close> of the scheduler logs an error that carries the index and
  the exception, and returns \<^verbatim>\<open>None\<close>; it raises nothing.
\<close>

theorem register_bot_failure:
  "register_bot (Fails e) i now = ([Log Error (Failed_to_register i e)], None)
   \<and> (400 \<le> code \<and> code < 600 \<longrightarrow>
        register_bot (Responds code body) i now =
          ([Log Error (Failed_to_register i (HTTPError code))], None))
   \<and> (register_bot_try r i now = Inl e' \<longrightarrow>
        register_bot r i now = ([Log Error (Failed_to_register i e')], None))"
  by (simp add: register_bot_def register_bot_try_def raise_for_status_def and_then_def)

theorem register_bot_failure_witness:
  "(400::nat) \<le> 500 \<and> (500::nat) < 600
   \<and> register_bot (Responds 500 None) 3 0
       = ([Log Error (Failed_to_register 3 (HTTPError 500))], None)
   \<and> register_bot_try (Responds 200 (Some (JObj [(''data'', JObj [])]))) 3 0
       = Inl (KeyError ''agent_id'')
   \<and> register_bot (Responds 200 (Some (JObj [(''data'', JObj [])]))) 3 0
       = ([Log Error (Failed_to_register 3 (KeyError ''agent_id''))], None)"
proof -
  have t: "register_bot_try (Responds 200 (Some (JObj [(''data'', JObj [])]))) 3 0
       = Inl (KeyError ''agent_id'')"
    by (simp add: register_bot_try_def raise_for_status_def response_json_def and_then_def)
  show ?thesis
    using register_bot_failure [of Timeout 3 0 500 None
        "Responds 200 (Some (JObj [(''data'', JObj [])]))" "KeyError ''agent_id''"] t
    by simp
qed

text \<open>
  C2 as stated fails: what \<^verbatim>\<open>register_bot\<close> returns after a failure is
  \<^verbatim>\<open>None\<close>, the same for a time-out at index 0 and for a status 500 at index 1, so
  the returned value carries neither the index nor the cause.
\<close>

theorem register_bot_returns_none:
  "snd (register_bot (Fails Timeout) 0 0) = None
   \<and> snd (register_bot (Responds 500 None) 1 0) = None"
  by (simp add: register_bot_def register_bot_try_def raise_for_status_def and_then_def)




end
